theory Spec2Isabelle
  imports Complex_Main
begin

section \<open>Values of the CSV engine\<close>

text \<open>
  The engine (class \<open>CSVFileParser\<close>) reads a comma separated file. JavaScript strings
  are modelled as \<^typ>\<open>string\<close>; the file is a list of bytes of the same type, so the
  model is exact for ASCII files, where one byte is one UTF-16 code unit. None of the
  universally quantified theorems below depends on how many code units a byte sequence
  decodes to.

  \<open>cells[i] || null\<close> turns a missing cell and the empty string into \<open>null\<close>.
\<close>

datatype cell = Null | Str string

text \<open>The value stored under a name of \<open>fields\<close>: one cell, or an array of cells.\<close>

datatype fval = Single cell | Seq "cell list"

text \<open>
  \<open>fields\<close> is an ordinary JavaScript object created by the literal \<open>{ _unnamed: [] }\<close>:
  its own properties (\<open>own\<close>, in insertion order) and whether its prototype still is
  \<open>Object.prototype\<close> (\<open>proto\<close>). The prototype matters for one name only: \<open>__proto__\<close> is an
  inherited accessor, so \<open>fields['__proto__'] = v\<close> calls its setter instead of creating a
  property. Every other inherited name (\<open>constructor\<close>, \<open>toString\<close>, ...) reads as a function
  and is shadowed by the assignment, exactly as an absent name.
\<close>

record fields_obj =
  own :: "(string \<times> fval) list"
  proto :: bool

text \<open>The row record; its property \<open>fields\<close> is the component \<open>fields_of\<close>.\<close>

record CSVObjectLine =
  index :: nat
  line :: "string option"
  cells :: "string list"
  hasMissingCells :: bool
  hasExcessCells :: bool
  fields_of :: fields_obj

definition new_CSVObjectLine :: "nat \<Rightarrow> string \<Rightarrow> string list \<Rightarrow> CSVObjectLine" where
  "new_CSVObjectLine i l cs =
     \<lparr> index = i, line = Some l, cells = cs, hasMissingCells = False, hasExcessCells = False,
       fields_of = \<lparr> own = [(''_unnamed'', Seq [])], proto = True \<rparr> \<rparr>"

section \<open>Row splitter\<close>

text \<open>\<open>line.split(',')\<close>: one more piece than there are commas; the empty line gives \<open>['']\<close>.\<close>

fun splitCSVLine :: "string \<Rightarrow> string list" where
  "splitCSVLine [] = [[]]"
| "splitCSVLine (c # cs) =
     (if c = CHR '','' then [] # splitCSVLine cs
      else (case splitCSVLine cs of w # ws \<Rightarrow> (c # w) # ws | [] \<Rightarrow> [[c]]))"

section \<open>Row decoder\<close>

text \<open>\<open>cells[i] || null\<close>, where \<open>cells[i]\<close> is \<open>undefined\<close> beyond the end of the array.\<close>

definition cell_at :: "string list \<Rightarrow> nat \<Rightarrow> cell" where
  "cell_at cs i = (if i < length cs \<and> cs ! i \<noteq> [] then Str (cs ! i) else Null)"

text \<open>\<open>_header[i]\<close>: \<open>None\<close> stands for \<open>undefined\<close>.\<close>

definition col_at :: "string list \<Rightarrow> nat \<Rightarrow> string option" where
  "col_at hs i = (if i < length hs then Some (hs ! i) else None)"

fun upd :: "string \<Rightarrow> fval \<Rightarrow> (string \<times> fval) list \<Rightarrow> (string \<times> fval) list" where
  "upd k v [] = [(k, v)]"
| "upd k v ((k', v') # ps) = (if k = k' then (k, v) # ps else (k', v') # upd k v ps)"

text \<open>
  \<open>obj[k] = v\<close>. For \<open>k = '__proto__'\<close> on an object that still inherits from
  \<open>Object.prototype\<close> and has no own property of that name, the inherited setter runs:
  \<open>null\<close> removes the prototype, a string is ignored.
\<close>

definition set_prop :: "string \<Rightarrow> fval \<Rightarrow> fields_obj \<Rightarrow> fields_obj" where
  "set_prop k v f =
     (if k = ''__proto__'' \<and> proto f \<and> map_of (own f) k = None
      then (case v of Single Null \<Rightarrow> f\<lparr>proto := False\<rparr> | _ \<Rightarrow> f)
      else f\<lparr>own := upd k v (own f)\<rparr>)"

text \<open>
  The three-way assignment of the decoder's loops:
  \<^verbatim>\<open>
  if (typeof result.fields[col] === 'string') { result.fields[col] = [result.fields[col], cell]; continue; }
  if (Array.isArray(result.fields[col])) { result.fields[col].push(cell); continue; }
  result.fields[col] = cell;
  \<close>
  A name that is not an own property reads as \<open>undefined\<close>, an inherited function or (for
  \<open>__proto__\<close>) an object that is not an array: the last branch in each case.
\<close>

definition assign_field :: "string \<Rightarrow> cell \<Rightarrow> fields_obj \<Rightarrow> fields_obj" where
  "assign_field col c f =
     (case map_of (own f) col of
        Some (Single (Str s)) \<Rightarrow> f\<lparr>own := upd col (Seq [Str s, c]) (own f)\<rparr>
      | Some (Seq xs) \<Rightarrow> f\<lparr>own := upd col (Seq (xs @ [c])) (own f)\<rparr>
      | _ \<Rightarrow> set_prop col (Single c) f)"

text \<open>
  \<open>result.fields._unnamed.push(cell)\<close>. The property \<open>_unnamed\<close> is created as an array and
  only the array branch above can write to it again, so it is an array whenever this runs
  (lemma \<open>unnamed_is_array\<close> below); the other case leaves the object as it is.
\<close>

definition push_unnamed :: "cell \<Rightarrow> fields_obj \<Rightarrow> fields_obj" where
  "push_unnamed c f =
     (case map_of (own f) ''_unnamed'' of
        Some (Seq xs) \<Rightarrow> f\<lparr>own := upd ''_unnamed'' (Seq (xs @ [c])) (own f)\<rparr>
      | _ \<Rightarrow> f)"

text \<open>Body of the loop of the branch \<open>cells.length > _header.length\<close>; \<open>!col\<close> holds for
  \<open>undefined\<close> and for the empty name.\<close>

definition excess_step :: "string list \<Rightarrow> string list \<Rightarrow> fields_obj \<Rightarrow> nat \<Rightarrow> fields_obj" where
  "excess_step hs cs f i =
     (case col_at hs i of
        None \<Rightarrow> push_unnamed (cell_at cs i) f
      | Some col \<Rightarrow> if col = [] then push_unnamed (cell_at cs i) f
                    else assign_field col (cell_at cs i) f)"

text \<open>Body of the loop of the other branch, which runs over the header.\<close>

definition named_step :: "string list \<Rightarrow> string list \<Rightarrow> fields_obj \<Rightarrow> nat \<Rightarrow> fields_obj" where
  "named_step hs cs f i = assign_field (hs ! i) (cell_at cs i) f"

text \<open>
  The decoder proper: the part of \<open>#buildLineObject\<close> after the header has been resolved
  to an array \<open>_header\<close> and the line has been split.
\<close>

definition decode :: "string list \<Rightarrow> string \<Rightarrow> nat \<Rightarrow> CSVObjectLine" where
  "decode hs l i =
     (let cs = splitCSVLine l; result = new_CSVObjectLine i l cs in
      if length cs > length hs
      then result\<lparr>hasExcessCells := True,
                  fields_of := foldl (excess_step hs cs) (fields_of result) [0..<length cs]\<rparr>
      else result\<lparr>fields_of := foldl (named_step hs cs) (fields_of result) [0..<length hs]\<rparr>)"

section \<open>Errors\<close>

text \<open>
  Every error of the engine is a JavaScript \<open>Error\<close> told apart by its message:
  \<open>StateError\<close> for "file is already open", "file is not open" and "file is not indexed",
  \<open>RangeError\<close> for "line index out of range", \<open>IOError\<close> for "error during read".
  \<open>TypeError\<close> is the exception of the language itself (a property of \<open>undefined\<close> or
  \<open>null\<close>, a private member of something that is no instance of the class), and the two
  \<open>ERR\<close> values are what \<open>fs.read\<close> throws when it rejects its arguments.
\<close>

datatype error = StateError | RangeError | IOError | TypeError
  | ERR_OUT_OF_RANGE | ERR_INVALID_ARG_VALUE

section \<open>The file engine\<close>

text \<open>The optional \<open>header\<close> argument of \<open>#buildLineObject\<close>: \<open>null\<close>, a line or an array.\<close>

datatype hdr = HNull | HStr string | HArr "string list"

text \<open>
  The generator made by \<open>iterator()\<close>: the header and the readline interface it captured
  (the lines that interface has still to deliver), its counter \<open>index\<close>, and whether it
  has finished: a generator that has run to the end of its stream, or that a throw has
  ended, yields nothing more.
\<close>

record generator_obj =
  g_header :: hdr
  g_stream :: "string list option"
  g_index :: nat
  g_done :: bool

text \<open>
  The private fields of \<open>CSVFileParser\<close> (\<open>#size\<close> is \<open>size_bytes\<close>). A stream or a
  handle is \<open>None\<close> for \<open>null\<close>; an open one carries the name of its file, and the
  readline interface the lines it has still to deliver. An entry of \<open>index_pool\<close> is the
  pair \<open>[offset, length]\<close>; \<open>push\<close> appends, so the first entry has position 0.
\<close>

record engine =
  filename :: string
  index_pool :: "(nat \<times> nat) list"
  header :: "string list option"
  lines :: nat
  columns :: nat
  size_bytes :: nat
  input_stream :: "string option"
  reading_handle :: "string option"
  iterator_stream :: "string list option"
  iterator_object :: "generator_obj option"
  is_open :: bool
  is_indexed :: bool
  is_iterator_active :: bool
  reading_buffer :: "string option"
  line_divisor :: string

definition LF :: char where "LF = CHR 0x0A"
definition CR :: char where "CR = CHR 0x0D"

text \<open>
  The lines \<open>readline\<close> delivers for a file (with \<open>crlfDelay: Infinity\<close>): a line ends
  at a newline, at a carriage return followed by a newline, or at a lone carriage return;
  what follows the last line end is delivered only when it is not empty. The contents of
  the file named \<open>filename\<close> are a parameter \<open>file\<close> of every operation that reads it; the
  file is taken to exist and not to change, and the interface to deliver every line to the
  loop that first iterates it.
\<close>

fun readline_from :: "string \<Rightarrow> string \<Rightarrow> string list" where
  "readline_from cur [] = (if cur = [] then [] else [cur])"
| "readline_from cur [c] =
     (if c = LF \<or> c = CR then [cur] else [cur @ [c]])"
| "readline_from cur (c # d # cs) =
     (if c = LF then cur # readline_from [] (d # cs)
      else if c = CR then (if d = LF then cur # readline_from [] cs
                           else cur # readline_from [] (d # cs))
      else readline_from (cur @ [c]) (d # cs))"

definition readline_lines :: "string \<Rightarrow> string list" where
  "readline_lines file = readline_from [] file"

fun includes_crlf :: "string \<Rightarrow> bool" where
  "includes_crlf (c # d # cs) = ((c = CR \<and> d = LF) \<or> includes_crlf (d # cs))"
| "includes_crlf _ = False"

text \<open>The constructor, before its last statement \<open>if (Boolean(open)) this.open()\<close>.\<close>

definition init_engine :: "string \<Rightarrow> engine" where
  "init_engine fname =
     \<lparr> filename = fname, index_pool = [], header = None, lines = 0, columns = 0,
       size_bytes = 0, input_stream = None, reading_handle = None, iterator_stream = None,
       iterator_object = None, is_open = False, is_indexed = False,
       is_iterator_active = False, reading_buffer = None, line_divisor = [LF] \<rparr>"

text \<open>
  \<open>open()\<close>. \<open>!this.#line_divisor\<close> holds for the empty string; the leading chunk is
  \<open>1024 * 8\<close> bytes.
\<close>

definition open_e :: "string \<Rightarrow> engine \<Rightarrow> error + engine" where
  "open_e file s =
     (if is_open s then Inl StateError
      else
        let s1 = s\<lparr>input_stream := Some (filename s),
                   iterator_stream := Some (readline_lines file)\<rparr>;
            s2 = (if reading_handle s1 = None
                  then s1\<lparr>reading_handle := Some (filename s1)\<rparr> else s1);
            s3 = s2\<lparr>is_open := True\<rparr>
        in Inr (if line_divisor s3 = []
                then s3\<lparr>line_divisor :=
                          (if includes_crlf (take (1024 * 8) file) then [CR, LF] else [LF])\<rparr>
                else s3))"

text \<open>\<open>new CSVFileParser(filename, { open })\<close>.\<close>

definition new_CSVFileParser :: "string \<Rightarrow> string \<Rightarrow> bool \<Rightarrow> error + engine" where
  "new_CSVFileParser file fname opn =
     (if opn then open_e file (init_engine fname) else Inr (init_engine fname))"

text \<open>\<open>close({ preserveFileHandle })\<close>; calling \<open>close\<close> on a stream that is \<open>null\<close> is a
  \<open>TypeError\<close>.\<close>

definition close_e :: "bool \<Rightarrow> engine \<Rightarrow> error + engine" where
  "close_e preserveFileHandle s =
     (if \<not> is_open s then Inl StateError
      else if input_stream s = None \<or> iterator_stream s = None then Inl TypeError
      else
        let s1 = s\<lparr>input_stream := None, iterator_stream := None\<rparr>;
            s2 = (if \<not> preserveFileHandle then s1\<lparr>reading_handle := None\<rparr> else s1)
        in Inr (s2\<lparr>is_open := False\<rparr>))"

text \<open>The getters that need an index.\<close>

definition get_header :: "engine \<Rightarrow> error + string list option" where
  "get_header s = (if \<not> is_indexed s then Inl StateError else Inr (header s))"

definition get_lines :: "engine \<Rightarrow> error + nat" where
  "get_lines s = (if \<not> is_indexed s then Inl StateError else Inr (lines s))"

definition get_columns :: "engine \<Rightarrow> error + nat" where
  "get_columns s = (if \<not> is_indexed s then Inl StateError else Inr (columns s))"

definition get_size :: "engine \<Rightarrow> error + nat" where
  "get_size s = (if \<not> is_indexed s then Inl StateError else Inr (size_bytes s))"

subsection \<open>Index builder\<close>

text \<open>
  The loop of \<open>buildIndex\<close> over the lines of the stream, with the local \<open>maxLength\<close> as
  second component; \<open>mx\<close> is the option \<open>max\<close> (default \<open>-1\<close>). The second branch is the
  \<open>break\<close>. Progress printing (\<open>printProgress\<close>) only writes to the console and is left out.
\<close>

fun index_scan :: "int \<Rightarrow> string list \<Rightarrow> engine \<times> nat \<Rightarrow> engine \<times> nat" where
  "index_scan mx [] (s, maxLength) = (s, maxLength)"
| "index_scan mx (l # ls) (s, maxLength) =
     (if lines s = 0
      then index_scan mx ls
             (s\<lparr>lines := lines s + 1,
                size_bytes := size_bytes s + (length l + length (line_divisor s)),
                header := Some (splitCSVLine l),
                columns := length (splitCSVLine l)\<rparr>, maxLength)
      else if mx \<ge> 0 \<and> int (lines s) \<ge> mx then (s, maxLength)
      else index_scan mx ls
             (s\<lparr>index_pool := index_pool s @ [(size_bytes s, length l + length (line_divisor s))],
                lines := lines s + 1,
                size_bytes := size_bytes s + (length l + length (line_divisor s))\<rparr>,
              if length l \<ge> maxLength then length l else maxLength))"

text \<open>\<open>buildIndex({ max })\<close>; \<open>Buffer.alloc(n)\<close> is \<open>n\<close> zero bytes.\<close>

definition buildIndex :: "string \<Rightarrow> int \<Rightarrow> engine \<Rightarrow> error + engine" where
  "buildIndex file mx s =
     (if \<not> is_open s then Inl StateError
      else case iterator_stream s of
        None \<Rightarrow> Inl TypeError
      | Some ls \<Rightarrow>
          (case index_scan mx ls (s\<lparr>lines := 0, size_bytes := 0\<rparr>, 0) of
             (s1, maxLength) \<Rightarrow>
               (case close_e True (s1\<lparr>reading_buffer := Some (replicate maxLength (CHR 0x00))\<rparr>) of
                  Inl e \<Rightarrow> Inl e
                | Inr s2 \<Rightarrow>
                    (case open_e file s2 of
                       Inl e \<Rightarrow> Inl e
                     | Inr s3 \<Rightarrow> Inr (s3\<lparr>is_indexed := True\<rparr>)))))"

text \<open>\<open>rewind()\<close>.\<close>

definition rewind :: "string \<Rightarrow> engine \<Rightarrow> error + engine" where
  "rewind file s =
     (if \<not> is_open s then Inl StateError
      else case close_e True s of Inl e \<Rightarrow> Inl e | Inr s1 \<Rightarrow> open_e file s1)"

subsection \<open>\<open>#buildLineObject\<close>\<close>

text \<open>
  \<open>#buildLineObject(line, index, { header })\<close> with its receiver \<open>this\<close> explicit:
  \<open>None\<close> when the method is called as a plain function, where \<open>this\<close> is \<open>undefined\<close>
  and every \<open>this.#...\<close> is a \<open>TypeError\<close>.
  \<^verbatim>\<open>
  if (typeof header === 'string') header = this.#splitCSVLine(header);
  const _header = header || this.#header;
  const cells = this.#splitCSVLine(line);
  const result = new CSVObjectLine({ index, line, cells });
  if (cells.length > _header.length) { ... } else { ... }
  \<close>
  An array is truthy, so \<open>this.#header\<close> is read only for a \<open>null\<close> header; when that
  field is \<open>null\<close> too, \<open>_header.length\<close> is a \<open>TypeError\<close>.
\<close>

definition buildLineObject ::
  "engine option \<Rightarrow> string \<Rightarrow> nat \<Rightarrow> hdr \<Rightarrow> error + CSVObjectLine" where
  "buildLineObject this l i h0 =
     (case (case h0 of
              HStr h \<Rightarrow> (case this of None \<Rightarrow> Inl TypeError
                                    | Some _ \<Rightarrow> Inr (HArr (splitCSVLine h)))
            | _ \<Rightarrow> Inr h0) of
        Inl e \<Rightarrow> Inl e
      | Inr hd1 \<Rightarrow>
          (case (case hd1 of
                   HArr hs \<Rightarrow> Inr (Some hs)
                 | _ \<Rightarrow> (case this of None \<Rightarrow> Inl TypeError | Some s \<Rightarrow> Inr (header s))) of
             Inl e \<Rightarrow> Inl e
           | Inr h \<Rightarrow>
               (case this of
                  None \<Rightarrow> Inl TypeError
                | Some _ \<Rightarrow> (case h of None \<Rightarrow> Inl TypeError
                                      | Some hs \<Rightarrow> Inr (decode hs l i)))))"

subsection \<open>Random-access reader\<close>

text \<open>\<open>String.prototype.trim\<close> on ASCII text: tab, line feed, vertical tab, form feed,
  carriage return and space.\<close>

definition js_space :: "char \<Rightarrow> bool" where
  "js_space c = (c = CHR 0x09 \<or> c = CHR 0x0A \<or> c = CHR 0x0B \<or> c = CHR 0x0C
                 \<or> c = CHR 0x0D \<or> c = CHR 0x20)"

definition trim :: "string \<Rightarrow> string" where
  "trim t = rev (dropWhile js_space (rev (dropWhile js_space t)))"

text \<open>
  \<open>#readAtIndex(index, length)\<close>: \<open>fs.read(handle, buffer, 0, length, index, callback)\<close>
  into \<open>this.#reading_buffer || Buffer.alloc(length)\<close>. \<open>fs.read\<close> calls back at once for
  length 0, throws \<open>ERR_INVALID_ARG_VALUE\<close> for an empty buffer and \<open>ERR_OUT_OF_RANGE\<close>
  when \<open>length\<close> exceeds the buffer; a throw inside the promise's executor rejects the
  promise, and \<open>await\<close> rethrows it in \<open>getLine\<close>. Otherwise the bytes the file has from
  the offset on, at most \<open>length\<close>, overwrite the start of the buffer, and the first
  \<open>length\<close> bytes of the buffer are decoded and trimmed. The shared buffer keeps what was
  written to it.
\<close>

definition readAtIndex :: "string \<Rightarrow> engine \<Rightarrow> nat \<Rightarrow> nat \<Rightarrow> (error + string) \<times> engine" where
  "readAtIndex file s off len =
     (let buffer = (case reading_buffer s of Some b \<Rightarrow> b | None \<Rightarrow> replicate len (CHR 0x00))
      in if len = 0 then (Inr (trim (take len buffer)), s)
         else if length buffer = 0 then (Inl ERR_INVALID_ARG_VALUE, s)
         else if len > length buffer then (Inl ERR_OUT_OF_RANGE, s)
         else
           let bytes = take len (drop off file);
               buffer' = bytes @ drop (length bytes) buffer
           in (Inr (trim (take len buffer')),
               if reading_buffer s = None then s else s\<lparr>reading_buffer := Some buffer'\<rparr>))"

text \<open>
  The argument of \<open>getLine\<close>: a finite number, or anything else (a value that is not a
  number, \<open>NaN\<close>, an infinity). Each value of the second kind satisfies one of
  \<open>!index\<close>, \<open>typeof index !== 'number'\<close>, \<open>index > this.#lines\<close>, \<open>index <= 0\<close>.
\<close>

datatype jsarg = JNum rat | JOther

text \<open>\<open>this.#index_pool[index]\<close>: an element for a whole number below the length,
  \<open>undefined\<close> (\<open>None\<close>) for any other number.\<close>

definition pool_at :: "(nat \<times> nat) list \<Rightarrow> rat \<Rightarrow> (nat \<times> nat) option" where
  "pool_at p r =
     (if of_int \<lfloor>r\<rfloor> = r \<and> 0 \<le> r \<and> nat \<lfloor>r\<rfloor> < length p then Some (p ! nat \<lfloor>r\<rfloor>) else None)"

text \<open>
  \<open>getLine(index)\<close>. The condition of the third \<open>throw\<close> is evaluated left to right and
  its last disjunct \<open>!this.#index_pool[index][1]\<close> reads property 1 of the entry: a
  \<open>TypeError\<close> when there is no entry. The second \<open>throw\<close> has the condition
  \<open>!this.#is_indexed || !this.#index_pool.length\<close>, written as two tests in that order. The row is decoded with \<open>this\<close> bound and no header
  argument. The second component is the engine afterwards (only the buffer can differ).
\<close>

definition getLine :: "string \<Rightarrow> engine \<Rightarrow> jsarg \<Rightarrow> (error + CSVObjectLine) \<times> engine" where
  "getLine file s a =
     (if \<not> is_open s then (Inl StateError, s)
      else if \<not> is_indexed s then (Inl StateError, s)
      else if index_pool s = [] then (Inl StateError, s)
      else case a of
        JOther \<Rightarrow> (Inl RangeError, s)
      | JNum r \<Rightarrow>
          if r = 0 \<or> r > of_nat (lines s) \<or> r \<le> 0 then (Inl RangeError, s)
          else (case pool_at (index_pool s) r of
                  None \<Rightarrow> (Inl TypeError, s)
                | Some (off, len) \<Rightarrow>
                    if len = 0 then (Inl RangeError, s)
                    else (case readAtIndex file s off len of
                            (Inl e, s') \<Rightarrow> (Inl e, s')
                          | (Inr t, s') \<Rightarrow>
                              (buildLineObject (Some s') t (nat \<lfloor>r\<rfloor>) HNull, s'))))"

subsection \<open>Sequential iterator\<close>

text \<open>
  \<open>iterator()\<close>: the stored generator while one is active, else a new one that captures
  \<open>this.#header\<close>, \<open>this.#iterator_stream\<close> and the method \<open>this.#buildLineObject\<close>
  (as a plain function: \<open>const scopeLineObjectBuilder = this.#buildLineObject\<close>).
\<close>

definition iterator :: "engine \<Rightarrow> error + (generator_obj option \<times> engine)" where
  "iterator s =
     (if \<not> is_open s then Inl StateError
      else if is_iterator_active s then Inr (iterator_object s, s)
      else
        let g = \<lparr> g_header = (case header s of None \<Rightarrow> HNull | Some hs \<Rightarrow> HArr hs),
                  g_stream = iterator_stream s, g_index = 0, g_done = False \<rparr>
        in Inr (Some g, s\<lparr>is_iterator_active := True, iterator_object := Some g\<rparr>))"

text \<open>
  The body of the generator, run over the lines of its stream until the stream ends or a
  call throws: the records yielded, and the error that ended the pass if one did. The
  parameter \<open>this\<close> is the receiver \<open>scopeLineObjectBuilder\<close> is called with.
  \<^verbatim>\<open>
  for await (const line of scopeIteratorStream) {
      index++;
      if (index === 1) { if (!header) header = line; continue; }
      yield scopeLineObjectBuilder(line, index, { header });
  }
  \<close>
  \<open>!header\<close> holds for \<open>null\<close> and for the empty string.
\<close>

fun gen_loop ::
  "engine option \<Rightarrow> nat \<Rightarrow> hdr \<Rightarrow> string list \<Rightarrow> CSVObjectLine list \<times> error option" where
  "gen_loop this i h0 [] = ([], None)"
| "gen_loop this i h0 (l # ls) =
     (if i + 1 = 1
      then gen_loop this (i + 1) (if h0 = HNull \<or> h0 = HStr [] then HStr l else h0) ls
      else (case buildLineObject this l (i + 1) h0 of
              Inl e \<Rightarrow> ([], Some e)
            | Inr r \<Rightarrow> (case gen_loop this (i + 1) h0 ls of (rs, e) \<Rightarrow> (r # rs, e))))"

text \<open>Draining a generator as \<open>iterator()\<close> made it: a finished generator yields
  nothing; otherwise the builder is called without a receiver, and iterating a stream that
  is \<open>null\<close> is a \<open>TypeError\<close>.\<close>

definition run_generator :: "generator_obj \<Rightarrow> CSVObjectLine list \<times> error option" where
  "run_generator g =
     (if g_done g then ([], None)
      else case g_stream g of
        None \<Rightarrow> ([], Some TypeError)
      | Some ls \<Rightarrow> gen_loop None (g_index g) (g_header g) ls)"

text \<open>A full pass: \<open>for await (const row of csv.iterator())\<close>, what it yields.\<close>

definition iterator_pass :: "engine \<Rightarrow> error + (CSVObjectLine list \<times> error option)" where
  "iterator_pass s =
     (case iterator s of
        Inl e \<Rightarrow> Inl e
      | Inr (None, _) \<Rightarrow> Inl TypeError
      | Inr (Some g, _) \<Rightarrow> Inr (run_generator g))"

text \<open>
  The engine after a full pass: the generator, which stays stored and active, has
  finished, and the stream a new generator captured has been read to its end. Streams are
  values in this model, so for a generator that was already stored the engine's own stream
  is left as it is; what \<open>close\<close> does to a generator that holds the closed interface is
  not modelled either.
\<close>

definition after_pass :: "engine \<Rightarrow> engine" where
  "after_pass s =
     (case iterator s of
        Inr (Some g, s') \<Rightarrow>
          (if is_iterator_active s
           then s'\<lparr>iterator_object := Some (g\<lparr>g_done := True\<rparr>)\<rparr>
           else s'\<lparr>iterator_object := Some (g\<lparr>g_done := True\<rparr>),
                   iterator_stream := map_option (\<lambda>_. []) (iterator_stream s')\<rparr>)
      | _ \<Rightarrow> s)"

section \<open>Sessions and example files\<close>

text \<open>Sequencing of operations that may throw, and reading a value off the result.\<close>

definition and_then :: "error + 'a \<Rightarrow> ('a \<Rightarrow> error + 'b) \<Rightarrow> error + 'b" where
  "and_then x f = (case x of Inl e \<Rightarrow> Inl e | Inr v \<Rightarrow> f v)"

definition and_read :: "error + 'a \<Rightarrow> ('a \<Rightarrow> 'b) \<Rightarrow> error + 'b" where
  "and_read x f = (case x of Inl e \<Rightarrow> Inl e | Inr v \<Rightarrow> Inr (f v))"

text \<open>
  The start of every use of the class, as in its documentation:
  \<^verbatim>\<open>
  const csv = new CSVFileParser('somefile.csv', { open: true });
  await csv.buildIndex({ max });
  \<close>
\<close>

definition open_and_index :: "string \<Rightarrow> string \<Rightarrow> int \<Rightarrow> error + engine" where
  "open_and_index file fname mx =
     and_then (new_CSVFileParser file fname True) (buildIndex file mx)"

text \<open>What \<open>await csv.getLine(a)\<close> gives: the record or the error.\<close>

definition getLine_result :: "string \<Rightarrow> jsarg \<Rightarrow> engine \<Rightarrow> error + CSVObjectLine" where
  "getLine_result file a s = fst (getLine file s a)"

text \<open>The number of entries of the Index Table, \<open>this.#index_pool.length\<close>.\<close>

definition pool_length :: "engine \<Rightarrow> nat" where
  "pool_length s = length (index_pool s)"

text \<open>The file of the specification's example: header \<open>a,b\<close>, rows \<open>1,2\<close>, \<open>3,4,5\<close>, \<open>6\<close>.\<close>

definition example_file :: string where
  "example_file = ''a,b'' @ [LF] @ ''1,2'' @ [LF] @ ''3,4,5'' @ [LF] @ ''6'' @ [LF]"

text \<open>A file whose longest row is the last one: header \<open>a,b\<close>, rows \<open>1,2\<close>, \<open>3,4\<close>,
  \<open>5,6,7,8\<close>.\<close>

definition wide_file :: string where
  "wide_file = ''a,b'' @ [LF] @ ''1,2'' @ [LF] @ ''3,4'' @ [LF] @ ''5,6,7,8'' @ [LF]"

text \<open>A file whose lines end in carriage return and newline.\<close>

definition crlf_file :: string where
  "crlf_file = ''a,b'' @ [CR, LF] @ ''1,2'' @ [CR, LF]"

text \<open>The engine after \<open>open\<close> and \<open>buildIndex()\<close> on a file (named \<open>data.csv\<close>).\<close>

definition indexed :: "string \<Rightarrow> engine" where
  "indexed file =
     (case open_and_index file ''data.csv'' (- 1) of
        Inr s \<Rightarrow> s | Inl _ \<Rightarrow> init_engine ''data.csv'')"

text \<open>What an open engine holds: both streams and the handle.\<close>

definition opened :: "engine \<Rightarrow> bool" where
  "opened s = (is_open s \<and> input_stream s \<noteq> None \<and> iterator_stream s \<noteq> None
               \<and> reading_handle s \<noteq> None)"

text \<open>Whether \<open>fields\<close> has an own property of a name, and the value of
  \<open>fields._unnamed\<close>, the unnamed bucket.\<close>

definition has_key :: "fields_obj \<Rightarrow> string \<Rightarrow> bool" where
  "has_key f k = (map_of (own f) k \<noteq> None)"

definition bucket :: "fields_obj \<Rightarrow> fval option" where
  "bucket f = map_of (own f) ''_unnamed''"

text \<open>
  What the loop of \<open>buildIndex\<close> keeps true of the Index Table: one entry less than
  \<open>#lines\<close>, offsets that increase and stay below \<open>#size\<close>, lengths above zero.
\<close>

definition pool_ok :: "engine \<Rightarrow> bool" where
  "pool_ok s = (length (index_pool s) = lines s - 1
                \<and> sorted_wrt (<) (map fst (index_pool s))
                \<and> list_all (\<lambda>e. fst e < size_bytes s) (index_pool s)
                \<and> list_all (\<lambda>e. 0 < snd e) (index_pool s))"

section \<open>What the decoder produces\<close>

lemma decode_hasMissingCells: "\<not> hasMissingCells (decode hs l i)"
  by (simp add: decode_def new_CSVObjectLine_def Let_def)

lemma decode_hasExcessCells:
  "hasExcessCells (decode hs l i) = (length (splitCSVLine l) > length hs)"
  by (simp add: decode_def new_CSVObjectLine_def Let_def)

lemma buildLineObject_decodes:
  "buildLineObject this l i h = Inr r \<Longrightarrow> \<exists>hs. r = decode hs l i"
  by (auto simp: buildLineObject_def split: hdr.splits option.splits sum.splits)

lemma gen_loop_decodes:
  "gen_loop this i h ls = (rs, e) \<Longrightarrow> r \<in> set rs \<Longrightarrow> \<exists>hs l j. r = decode hs l j"
proof (induction this i h ls arbitrary: rs e rule: gen_loop.induct)
  case (1 this i h0)
  then show ?case by simp
next
  case (2 this i h0 l ls)
  show ?case
  proof (cases "i = 0")
    case True
    with 2 show ?thesis by simp
  next
    case False
    show ?thesis
    proof (cases "buildLineObject this l (i + 1) h0")
      case (Inl err)
      with False "2.prems" show ?thesis by simp
    next
      case (Inr r0)
      obtain rs' e' where g: "gen_loop this (i + 1) h0 ls = (rs', e')"
        by (cases "gen_loop this (i + 1) h0 ls")
      with False Inr "2.prems" have rs: "rs = r0 # rs'" by simp
      show ?thesis
      proof (cases "r = r0")
        case True
        with Inr show ?thesis using buildLineObject_decodes by blast
      next
        case neq: False
        with rs "2.prems" have "r \<in> set rs'" by simp
        moreover from False have "i + 1 \<noteq> 1" by simp
        ultimately show ?thesis using "2.IH"(2)[OF _ Inr g] by blast
      qed
    qed
  qed
qed

lemma getLine_decodes:
  "getLine file s a = (Inr r, s') \<Longrightarrow> \<exists>hs l j. r = decode hs l j"
  by (auto simp: getLine_def split: if_splits jsarg.splits option.splits prod.splits sum.splits
           dest!: buildLineObject_decodes)

lemma iterator_pass_decodes:
  "iterator_pass s = Inr (rs, e) \<Longrightarrow> r \<in> set rs \<Longrightarrow> \<exists>hs l j. r = decode hs l j"
  by (auto simp: iterator_pass_def run_generator_def
           split: sum.splits option.splits prod.splits if_splits
           dest: gen_loop_decodes)

text \<open>A second pass without a rewind gets the finished generator and yields nothing.\<close>

lemma second_pass_is_empty:
  "is_open s \<Longrightarrow> \<not> is_iterator_active s \<Longrightarrow> iterator_pass (after_pass s) = Inr ([], None)"
  by (simp add: after_pass_def iterator_pass_def iterator_def run_generator_def Let_def)

lemma second_pass_on_wide_file:
  "iterator_pass (indexed wide_file) = Inr ([], Some TypeError)
   \<and> iterator_pass (after_pass (indexed wide_file)) = Inr ([], None)"
  by code_simp

section \<open>Evaluation on the example files\<close>

lemma example_lines: "readline_lines example_file = [''a,b'', ''1,2'', ''3,4,5'', ''6'']"
  by code_simp

lemma wide_lines: "readline_lines wide_file = [''a,b'', ''1,2'', ''3,4'', ''5,6,7,8'']"
  by code_simp

text \<open>
  C1: for every valid row number \<open>i\<close>, \<open>getLine(i)\<close> after \<open>buildIndex\<close> returns a record
  identical in every field to the \<open>i\<close>-th record of a full \<open>iterator()\<close> pass. The code does
  otherwise. On the file with header \<open>a,b\<close> and rows \<open>1,2\<close>, \<open>3,4\<close>, \<open>5,6,7,8\<close>,
  \<open>getLine(1)\<close> returns the second data row, \<open>3,4\<close>, numbered 1, because the Index Table
  is filled from position 0 and read at position \<open>index\<close>; the pass of \<open>iterator()\<close> yields
  no record at all and ends in a \<open>TypeError\<close> at the first data row, because the decoder is
  called without its receiver; and were it called with the engine as receiver, the first
  record of the pass would be the row \<open>1,2\<close> numbered 2, the header having been counted.
\<close>

theorem getLine_and_iterator_disagree:
  "and_then (open_and_index wide_file ''data.csv'' (- 1)) (getLine_result wide_file (JNum 1))
     = Inr \<lparr> index = 1, line = Some ''3,4'', cells = [''3'', ''4''], hasMissingCells = False,
             hasExcessCells = False,
             fields_of = \<lparr> own = [(''_unnamed'', Seq []), (''a'', Single (Str ''3'')),
                                  (''b'', Single (Str ''4''))], proto = True \<rparr> \<rparr>
   \<and> and_then (open_and_index wide_file ''data.csv'' (- 1)) iterator_pass
     = Inr ([], Some TypeError)
   \<and> fst (gen_loop (Some (indexed wide_file)) 0 (HArr [''a'', ''b''])
             [''a,b'', ''1,2'', ''3,4'', ''5,6,7,8''])
     = [decode [''a'', ''b''] ''1,2'' 2, decode [''a'', ''b''] ''3,4'' 3,
        decode [''a'', ''b''] ''5,6,7,8'' 4]"
proof (intro conjI)
  show "and_then (open_and_index wide_file ''data.csv'' (- 1))
          (getLine_result wide_file (JNum 1))
        = Inr \<lparr> index = 1, line = Some ''3,4'', cells = [''3'', ''4''],
                hasMissingCells = False, hasExcessCells = False,
                fields_of = \<lparr> own = [(''_unnamed'', Seq []), (''a'', Single (Str ''3'')),
                                     (''b'', Single (Str ''4''))], proto = True \<rparr> \<rparr>"
    by code_simp
  show "and_then (open_and_index wide_file ''data.csv'' (- 1)) iterator_pass
        = Inr ([], Some TypeError)"
    by code_simp
  show "fst (gen_loop (Some (indexed wide_file)) 0 (HArr [''a'', ''b''])
               [''a,b'', ''1,2'', ''3,4'', ''5,6,7,8''])
        = [decode [''a'', ''b''] ''1,2'' 2, decode [''a'', ''b''] ''3,4'' 3,
           decode [''a'', ''b''] ''5,6,7,8'' 4]"
    by code_simp
qed

text \<open>
  C2, as stated: for the header \<open>a,b\<close> and the rows \<open>1,2\<close>, \<open>3,4,5\<close>, \<open>6\<close>, after
  \<open>buildIndex\<close> \<open>columns\<close> is 2 and \<open>lines\<close> is 3. The code counts the header line too.
\<close>

theorem example_lines_not_three:
  "\<not> (and_then (open_and_index example_file ''data.csv'' (- 1)) get_columns = Inr 2
      \<and> and_then (open_and_index example_file ''data.csv'' (- 1)) get_lines = Inr 3)"
proof -
  have "and_then (open_and_index example_file ''data.csv'' (- 1)) get_lines = Inr 4"
    by code_simp
  then show ?thesis by simp
qed

text \<open>
  C2, amended: for the header \<open>a,b\<close> and the rows \<open>1,2\<close>, \<open>3,4,5\<close>, \<open>6\<close>, after
  \<open>buildIndex\<close> \<open>columns\<close> is 2 and \<open>lines\<close> is 4, the header line being counted, and the
  header is \<open>[a, b]\<close>; decoded against that header, the row \<open>1,2\<close> has the fields \<open>a: "1"\<close>,
  \<open>b: "2"\<close> and an empty unnamed bucket, the row \<open>3,4,5\<close> has \<open>hasExcessCells\<close>, the fields
  \<open>a: "3"\<close>, \<open>b: "4"\<close> and the unnamed bucket \<open>["5"]\<close>, and the row \<open>6\<close> has the fields
  \<open>a: "6"\<close>, \<open>b: null\<close> and an empty unnamed bucket.
\<close>

theorem example_file_decoded:
  "and_then (open_and_index example_file ''data.csv'' (- 1)) get_columns = Inr 2
   \<and> and_then (open_and_index example_file ''data.csv'' (- 1)) get_lines = Inr 4
   \<and> and_then (open_and_index example_file ''data.csv'' (- 1)) get_header
       = Inr (Some [''a'', ''b''])
   \<and> readline_lines example_file = [''a,b'', ''1,2'', ''3,4,5'', ''6'']
   \<and> fields_of (decode [''a'', ''b''] ''1,2'' 1)
       = \<lparr> own = [(''_unnamed'', Seq []), (''a'', Single (Str ''1'')),
                  (''b'', Single (Str ''2''))], proto = True \<rparr>
   \<and> hasExcessCells (decode [''a'', ''b''] ''3,4,5'' 2)
   \<and> fields_of (decode [''a'', ''b''] ''3,4,5'' 2)
       = \<lparr> own = [(''_unnamed'', Seq [Str ''5'']), (''a'', Single (Str ''3'')),
                  (''b'', Single (Str ''4''))], proto = True \<rparr>
   \<and> fields_of (decode [''a'', ''b''] ''6'' 3)
       = \<lparr> own = [(''_unnamed'', Seq []), (''a'', Single (Str ''6'')),
                  (''b'', Single Null)], proto = True \<rparr>"
proof (intro conjI)
  show "and_then (open_and_index example_file ''data.csv'' (- 1)) get_columns = Inr 2"
    by code_simp
  show "and_then (open_and_index example_file ''data.csv'' (- 1)) get_lines = Inr 4"
    by code_simp
  show "and_then (open_and_index example_file ''data.csv'' (- 1)) get_header
        = Inr (Some [''a'', ''b''])"
    by code_simp
  show "readline_lines example_file = [''a,b'', ''1,2'', ''3,4,5'', ''6'']"
    by (rule example_lines)
  show "fields_of (decode [''a'', ''b''] ''1,2'' 1)
        = \<lparr> own = [(''_unnamed'', Seq []), (''a'', Single (Str ''1'')),
                   (''b'', Single (Str ''2''))], proto = True \<rparr>"
    by code_simp
  show "hasExcessCells (decode [''a'', ''b''] ''3,4,5'' 2)"
    by code_simp
  show "fields_of (decode [''a'', ''b''] ''3,4,5'' 2)
        = \<lparr> own = [(''_unnamed'', Seq [Str ''5'']), (''a'', Single (Str ''3'')),
                   (''b'', Single (Str ''4''))], proto = True \<rparr>"
    by code_simp
  show "fields_of (decode [''a'', ''b''] ''6'' 3)
        = \<lparr> own = [(''_unnamed'', Seq []), (''a'', Single (Str ''6'')),
                   (''b'', Single Null)], proto = True \<rparr>"
    by code_simp
qed

text \<open>
  C3: on an open, indexed engine \<open>getLine(rowNumber)\<close> fails with \<open>RangeError\<close> exactly when
  \<open>rowNumber\<close> is not an integer in \<open>[1, lines]\<close> or has no Index Table entry. On the example
  file \<open>lines\<close> is 4 and the Index Table has the positions 0, 1 and 2; \<open>getLine(3)\<close> and
  \<open>getLine(4)\<close> pass the range test, find no entry and fail with a \<open>TypeError\<close> from
  reading property 1 of \<open>undefined\<close>, not with \<open>RangeError\<close>. The rest of the claim holds
  there: \<open>getLine(0)\<close> and \<open>getLine(lines+1)\<close> fail with \<open>RangeError\<close>, and \<open>getLine\<close>
  before \<open>buildIndex\<close> fails with \<open>StateError\<close>.
\<close>

theorem getLine_without_entry_is_TypeError:
  "and_then (open_and_index example_file ''data.csv'' (- 1)) get_lines = Inr 4
   \<and> and_read (open_and_index example_file ''data.csv'' (- 1)) pool_length = Inr 3
   \<and> and_then (open_and_index example_file ''data.csv'' (- 1))
        (getLine_result example_file (JNum 4)) = Inl TypeError
   \<and> and_then (open_and_index example_file ''data.csv'' (- 1))
        (getLine_result example_file (JNum 3)) = Inl TypeError
   \<and> and_then (open_and_index example_file ''data.csv'' (- 1))
        (getLine_result example_file (JNum 0)) = Inl RangeError
   \<and> and_then (open_and_index example_file ''data.csv'' (- 1))
        (getLine_result example_file (JNum 5)) = Inl RangeError
   \<and> and_then (new_CSVFileParser example_file ''data.csv'' True)
        (getLine_result example_file (JNum 1)) = Inl StateError"
proof (intro conjI)
  show "and_then (open_and_index example_file ''data.csv'' (- 1))
          (getLine_result example_file (JNum 0)) = Inl RangeError"
    by code_simp
  show "and_then (open_and_index example_file ''data.csv'' (- 1))
          (getLine_result example_file (JNum 5)) = Inl RangeError"
    by code_simp
  show "and_then (new_CSVFileParser example_file ''data.csv'' True)
          (getLine_result example_file (JNum 1)) = Inl StateError"
    by code_simp
  show "and_then (open_and_index example_file ''data.csv'' (- 1)) get_lines = Inr 4"
    by code_simp
  show "and_read (open_and_index example_file ''data.csv'' (- 1)) pool_length = Inr 3"
    by code_simp
  show "and_then (open_and_index example_file ''data.csv'' (- 1))
          (getLine_result example_file (JNum 4)) = Inl TypeError"
    by code_simp
  show "and_then (open_and_index example_file ''data.csv'' (- 1))
          (getLine_result example_file (JNum 3)) = Inl TypeError"
    by code_simp
qed

text \<open>
  C6: on the first \<open>open()\<close> the line divisor is detected from the leading chunk of the file,
  so that a file whose lines end in carriage return and newline is indexed with the two-byte
  divisor. The constructor has already set the divisor to a newline, the test
  \<open>!this.#line_divisor\<close> of \<open>open()\<close> fails, and the detection never runs: the engine keeps
  the one-byte divisor for such a file and records the entry \<open>[4, 4]\<close> for a row that starts
  at byte 5 and takes 5 bytes.
\<close>

theorem crlf_file_keeps_newline_divisor:
  "includes_crlf (take (1024 * 8) crlf_file)
   \<and> and_read (new_CSVFileParser crlf_file ''data.csv'' True) line_divisor = Inr [LF]
   \<and> and_read (open_and_index crlf_file ''data.csv'' (- 1)) line_divisor = Inr [LF]
   \<and> readline_lines crlf_file = [''a,b'', ''1,2'']
   \<and> and_read (open_and_index crlf_file ''data.csv'' (- 1)) index_pool = Inr [(4, 4)]
   \<and> take 5 (drop 5 crlf_file) = ''1,2'' @ [CR, LF]"
proof (intro conjI)
  show "includes_crlf (take (1024 * 8) crlf_file)"
    by code_simp
  show "and_read (new_CSVFileParser crlf_file ''data.csv'' True) line_divisor = Inr [LF]"
    by code_simp
  show "and_read (open_and_index crlf_file ''data.csv'' (- 1)) line_divisor = Inr [LF]"
    by code_simp
  show "readline_lines crlf_file = [''a,b'', ''1,2'']"
    by code_simp
  show "and_read (open_and_index crlf_file ''data.csv'' (- 1)) index_pool = Inr [(4, 4)]"
    by code_simp
  show "take 5 (drop 5 crlf_file) = ''1,2'' @ [CR, LF]"
    by code_simp
qed

text \<open>
  C7: a header name assigned more than once always holds the sequence of every value
  assigned, in order, also when an earlier value was \<open>null\<close>. With the header \<open>a,a\<close> the
  line \<open>,x\<close> assigns \<open>null\<close> and then \<open>"x"\<close>: \<open>null\<close> is neither a string nor an array, the
  third branch overwrites it, and the field is \<open>"x"\<close>. In the other order, line \<open>x,\<close>, the
  same code does accumulate: \<open>["x", null]\<close>.
\<close>

theorem null_is_overwritten:
  "fields_of (decode [''a'', ''a''] '',x'' 1)
     = \<lparr> own = [(''_unnamed'', Seq []), (''a'', Single (Str ''x''))], proto = True \<rparr>
   \<and> fields_of (decode [''a'', ''a''] ''x,'' 1)
     = \<lparr> own = [(''_unnamed'', Seq []), (''a'', Seq [Str ''x'', Null])], proto = True \<rparr>"
proof (intro conjI)
  show "fields_of (decode [''a'', ''a''] '',x'' 1)
        = \<lparr> own = [(''_unnamed'', Seq []), (''a'', Single (Str ''x''))], proto = True \<rparr>"
    by code_simp
  show "fields_of (decode [''a'', ''a''] ''x,'' 1)
        = \<lparr> own = [(''_unnamed'', Seq []), (''a'', Seq [Str ''x'', Null])], proto = True \<rparr>"
    by code_simp
qed

section \<open>The flag \<open>hasMissingCells\<close>\<close>

text \<open>
  C9: every record the decoder produces, through \<open>#buildLineObject\<close>, \<open>getLine\<close> or a pass
  of \<open>iterator()\<close> (also one whose builder has a receiver), has \<open>hasMissingCells\<close> false,
  whatever the number of cells; \<open>hasExcessCells\<close> is the only flag computed, true exactly
  when the line has more cells than the header has names.
\<close>

theorem hasMissingCells_never_set:
  "(buildLineObject this l i h = Inr r \<longrightarrow> \<not> hasMissingCells r)
   \<and> (getLine_result file a s = Inr r1 \<longrightarrow> \<not> hasMissingCells r1)
   \<and> (iterator_pass s2 = Inr (rs, e) \<longrightarrow> list_all (\<lambda>x. \<not> hasMissingCells x) rs)
   \<and> list_all (\<lambda>x. \<not> hasMissingCells x) (fst (gen_loop this3 i3 h3 ls3))
   \<and> hasExcessCells (decode hs l4 i4) = (length (splitCSVLine l4) > length hs)"
proof (intro conjI impI)
  assume "buildLineObject this l i h = Inr r"
  then show "\<not> hasMissingCells r"
    using buildLineObject_decodes decode_hasMissingCells by blast
next
  assume "getLine_result file a s = Inr r1"
  then obtain s' where "getLine file s a = (Inr r1, s')"
    by (cases "getLine file s a") (simp add: getLine_result_def)
  then show "\<not> hasMissingCells r1"
    using getLine_decodes decode_hasMissingCells by blast
next
  assume "iterator_pass s2 = Inr (rs, e)"
  then show "list_all (\<lambda>x. \<not> hasMissingCells x) rs"
    unfolding list_all_iff using iterator_pass_decodes decode_hasMissingCells by blast
next
  obtain rs' e' where "gen_loop this3 i3 h3 ls3 = (rs', e')"
    by (cases "gen_loop this3 i3 h3 ls3")
  then show "list_all (\<lambda>x. \<not> hasMissingCells x) (fst (gen_loop this3 i3 h3 ls3))"
    unfolding list_all_iff using gen_loop_decodes decode_hasMissingCells by fastforce
next
  show "hasExcessCells (decode hs l4 i4) = (length (splitCSVLine l4) > length hs)"
    by (rule decode_hasExcessCells)
qed

theorem hasMissingCells_never_set_witness:
  "getLine_result example_file (JNum 2) (indexed example_file) = Inr (decode [''a'', ''b''] ''6'' 2)
   \<and> length (splitCSVLine ''6'') < length [''a'', ''b'']
   \<and> \<not> hasMissingCells (decode [''a'', ''b''] ''6'' 2)
   \<and> buildLineObject (Some (indexed example_file)) ''6'' 4 HNull = Inr (decode [''a'', ''b''] ''6'' 4)
   \<and> \<not> hasMissingCells (decode [''a'', ''b''] ''6'' 4)
   \<and> iterator_pass (indexed example_file) = Inr ([], Some TypeError)"
proof -
  have g: "getLine_result example_file (JNum 2) (indexed example_file)
           = Inr (decode [''a'', ''b''] ''6'' 2)"
    by code_simp
  have b: "buildLineObject (Some (indexed example_file)) ''6'' 4 HNull
           = Inr (decode [''a'', ''b''] ''6'' 4)"
    by code_simp
  have p: "iterator_pass (indexed example_file) = Inr ([], Some TypeError)"
    by code_simp
  have n: "length (splitCSVLine ''6'') < length [''a'', ''b'']"
    by code_simp
  from g b p n show ?thesis
    using hasMissingCells_never_set
      [of "Some (indexed example_file)" "''6''" 4 HNull "decode [''a'', ''b''] ''6'' 4"
          example_file "JNum 2" "indexed example_file" "decode [''a'', ''b''] ''6'' 2"
          "indexed example_file" "[]" "Some TypeError"]
    by blast
qed

section \<open>The index builder\<close>

lemma index_scan_frame:
  "index_scan mx ls (s, ml) = (s', ml') \<Longrightarrow>
     filename s' = filename s \<and> is_open s' = is_open s \<and> is_indexed s' = is_indexed s
     \<and> input_stream s' = input_stream s \<and> iterator_stream s' = iterator_stream s
     \<and> reading_handle s' = reading_handle s \<and> line_divisor s' = line_divisor s
     \<and> is_iterator_active s' = is_iterator_active s \<and> iterator_object s' = iterator_object s
     \<and> reading_buffer s' = reading_buffer s"
proof (induction ls arbitrary: s ml)
  case Nil
  then show ?case by simp
next
  case (Cons l ls)
  show ?case
  proof (cases "lines s = 0")
    case True
    with Cons.prems Cons.IH show ?thesis by fastforce
  next
    case False
    show ?thesis
    proof (cases "mx \<ge> 0 \<and> int (lines s) \<ge> mx")
      case True
      with False Cons.prems show ?thesis by simp
    next
      case nb: False
      with False Cons.prems Cons.IH show ?thesis by fastforce
    qed
  qed
qed

lemma index_scan_pool_ok:
  "index_scan mx ls (s, ml) = (s', ml') \<Longrightarrow> line_divisor s \<noteq> [] \<Longrightarrow> pool_ok s \<Longrightarrow> pool_ok s'"
proof (induction ls arbitrary: s ml)
  case Nil
  then show ?case by simp
next
  case (Cons l ls)
  from Cons.prems(2) have d: "0 < length (line_divisor s)" by simp
  show ?case
  proof (cases "lines s = 0")
    case True
    let ?s1 = "s\<lparr>lines := lines s + 1,
                  size_bytes := size_bytes s + (length l + length (line_divisor s)),
                  header := Some (splitCSVLine l),
                  columns := length (splitCSVLine l)\<rparr>"
    from Cons.prems(3) have "length (index_pool s) = lines s - 1" by (simp add: pool_ok_def)
    with True have "index_pool s = []" by simp
    with True have "pool_ok ?s1" by (simp add: pool_ok_def)
    moreover from True Cons.prems(1) have "index_scan mx ls (?s1, ml) = (s', ml')" by simp
    moreover from Cons.prems(2) have "line_divisor ?s1 \<noteq> []" by simp
    ultimately show ?thesis using Cons.IH by blast
  next
    case False
    show ?thesis
    proof (cases "mx \<ge> 0 \<and> int (lines s) \<ge> mx")
      case True
      with False Cons.prems show ?thesis by simp
    next
      case nb: False
      let ?len = "length l + length (line_divisor s)"
      let ?s1 = "s\<lparr>index_pool := index_pool s @ [(size_bytes s, ?len)],
                  lines := lines s + 1,
                  size_bytes := size_bytes s + ?len\<rparr>"
      let ?m1 = "if length l \<ge> ml then length l else ml"
      have "pool_ok ?s1"
        using Cons.prems(3) False d
        by (auto simp: pool_ok_def sorted_wrt_append list_all_iff)
      moreover from False nb Cons.prems(1) have "index_scan mx ls (?s1, ?m1) = (s', ml')"
        by (auto split: if_splits)
      moreover from Cons.prems(2) have "line_divisor ?s1 \<noteq> []" by simp
      ultimately show ?thesis using Cons.IH by blast
    qed
  qed
qed

lemma open_init:
  "new_CSVFileParser file fname True
   = Inr ((init_engine fname)\<lparr>input_stream := Some fname,
            iterator_stream := Some (readline_lines file),
            reading_handle := Some fname, is_open := True\<rparr>)"
  by (simp add: new_CSVFileParser_def open_e_def init_engine_def Let_def)

lemma buildIndex_result:
  assumes "opened s" and "iterator_stream s = Some ls"
    and "index_scan mx ls (s\<lparr>lines := 0, size_bytes := 0\<rparr>, 0) = (s1, ml)"
  shows "\<exists>s'. buildIndex file mx s = Inr s'
     \<and> index_pool s' = index_pool s1 \<and> lines s' = lines s1 \<and> size_bytes s' = size_bytes s1
     \<and> header s' = header s1 \<and> columns s' = columns s1
     \<and> filename s' = filename s \<and> reading_handle s' = reading_handle s
     \<and> reading_buffer s' = Some (replicate ml (CHR 0x00))
     \<and> is_indexed s' \<and> opened s'"
proof -
  from index_scan_frame[OF assms(3)] assms(1,2)
  have f: "is_open s1" "input_stream s1 \<noteq> None" "iterator_stream s1 \<noteq> None"
    "reading_handle s1 = reading_handle s" "filename s1 = filename s"
    "reading_handle s1 \<noteq> None"
    by (auto simp: opened_def)
  then show ?thesis
    using assms
    by (auto simp: buildIndex_def close_e_def open_e_def Let_def opened_def)
qed

lemma open_and_index_result:
  assumes "index_scan mx (readline_lines file)
             ((init_engine fname)\<lparr>input_stream := Some fname,
                iterator_stream := Some (readline_lines file),
                reading_handle := Some fname, is_open := True,
                lines := 0, size_bytes := 0\<rparr>, 0) = (s1, ml)"
  shows "\<exists>s'. open_and_index file fname mx = Inr s'
     \<and> index_pool s' = index_pool s1 \<and> lines s' = lines s1 \<and> size_bytes s' = size_bytes s1
     \<and> header s' = header s1 \<and> columns s' = columns s1
     \<and> reading_buffer s' = Some (replicate ml (CHR 0x00))
     \<and> is_indexed s' \<and> opened s'"
proof -
  let ?s0 = "(init_engine fname)\<lparr>input_stream := Some fname,
                iterator_stream := Some (readline_lines file),
                reading_handle := Some fname, is_open := True\<rparr>"
  have op: "opened ?s0" by (simp add: opened_def)
  have it: "iterator_stream ?s0 = Some (readline_lines file)" by simp

  from assms have sc: "index_scan mx (readline_lines file) (?s0\<lparr>lines := 0, size_bytes := 0\<rparr>, 0) = (s1, ml)"
    by simp
  from buildIndex_result[OF op it sc, of "file"] show ?thesis
    by (auto simp: open_and_index_def and_then_def open_init)
qed

lemma index_scan_lines:
  "index_scan mx ls (s, ml) = (s', ml') \<Longrightarrow> 0 < lines s \<Longrightarrow>
     lines s' = (if mx < 0 then lines s + length ls
                 else max (lines s) (min (lines s + length ls) (nat mx)))"
proof (induction ls arbitrary: s ml)
  case Nil
  then show ?case by auto
next
  case (Cons l ls)
  show ?case
  proof (cases "mx \<ge> 0 \<and> int (lines s) \<ge> mx")
    case True
    with Cons.prems show ?thesis by auto
  next
    case nb: False
    let ?len = "length l + length (line_divisor s)"
    let ?s1 = "s\<lparr>index_pool := index_pool s @ [(size_bytes s, ?len)],
                lines := lines s + 1,
                size_bytes := size_bytes s + ?len\<rparr>"
    let ?m1 = "if length l \<ge> ml then length l else ml"
    from nb Cons.prems have "index_scan mx ls (?s1, ?m1) = (s', ml')"
      by (auto split: if_splits)
    from Cons.IH[OF this] have "lines s' = (if mx < 0 then lines ?s1 + length ls
                 else max (lines ?s1) (min (lines ?s1 + length ls) (nat mx)))"
      by simp
    with nb show ?thesis by auto
  qed
qed

lemma index_scan_size:
  "index_scan mx ls (s, ml) = (s', ml') \<Longrightarrow>
     lines s \<le> lines s'
     \<and> size_bytes s' = size_bytes s
         + sum_list (map (\<lambda>l. length l + length (line_divisor s)) (take (lines s' - lines s) ls))"
proof (induction ls arbitrary: s ml)
  case Nil
  then show ?case by simp
next
  case (Cons l ls)
  show ?case
  proof (cases "lines s = 0")
    case True
    let ?s1 = "s\<lparr>lines := lines s + 1,
                  size_bytes := size_bytes s + (length l + length (line_divisor s)),
                  header := Some (splitCSVLine l),
                  columns := length (splitCSVLine l)\<rparr>"
    from True Cons.prems have sc: "index_scan mx ls (?s1, ml) = (s', ml')" by simp
    from Cons.IH[OF sc] have ih: "lines s + 1 \<le> lines s'"
      "size_bytes s' = size_bytes ?s1
         + sum_list (map (\<lambda>l. length l + length (line_divisor s)) (take (lines s' - (lines s + 1)) ls))"
      by simp_all
    from ih(1) have "lines s' - lines s = Suc (lines s' - (lines s + 1))" by arith
    with ih show ?thesis by simp
  next
    case False
    show ?thesis
    proof (cases "mx \<ge> 0 \<and> int (lines s) \<ge> mx")
      case True
      with False Cons.prems show ?thesis by simp
    next
      case nb: False
      let ?len = "length l + length (line_divisor s)"
      let ?s1 = "s\<lparr>index_pool := index_pool s @ [(size_bytes s, ?len)],
                  lines := lines s + 1,
                  size_bytes := size_bytes s + ?len\<rparr>"
      let ?m1 = "if length l \<ge> ml then length l else ml"
      from False nb Cons.prems have sc: "index_scan mx ls (?s1, ?m1) = (s', ml')"
        by (auto split: if_splits)
      from Cons.IH[OF sc] have ih: "lines s + 1 \<le> lines s'"
        "size_bytes s' = size_bytes ?s1
           + sum_list (map (\<lambda>l. length l + length (line_divisor s)) (take (lines s' - (lines s + 1)) ls))"
        by simp_all
      from ih(1) have "lines s' - lines s = Suc (lines s' - (lines s + 1))" by arith
      with ih show ?thesis by simp
    qed
  qed
qed

lemma index_scan_lines_fresh:
  assumes "index_scan mx ls (s, ml) = (s', ml')" and "lines s = 0"
  shows "lines s' = (if ls = [] then 0 else if mx < 0 then length ls
                     else max 1 (min (length ls) (nat mx)))"
proof (cases ls)
  case Nil
  with assms show ?thesis by simp
next
  case (Cons l ls')
  let ?s1 = "s\<lparr>lines := lines s + 1,
                size_bytes := size_bytes s + (length l + length (line_divisor s)),
                header := Some (splitCSVLine l),
                columns := length (splitCSVLine l)\<rparr>"
  from assms Cons have "index_scan mx ls' (?s1, ml) = (s', ml')" by simp
  from index_scan_lines[OF this] assms(2) Cons show ?thesis by simp
qed

text \<open>
  C4, as stated: after indexing the Index Table holds exactly \<open>lines\<close> entries. On the
  example file it holds 3 entries while \<open>lines\<close> is 4.
\<close>

theorem index_table_smaller_than_lines:
  "and_read (open_and_index example_file ''data.csv'' (- 1)) pool_length = Inr 3
   \<and> and_then (open_and_index example_file ''data.csv'' (- 1)) get_lines = Inr 4"
proof (intro conjI)
  show "and_read (open_and_index example_file ''data.csv'' (- 1)) pool_length = Inr 3"
    by code_simp
  show "and_then (open_and_index example_file ''data.csv'' (- 1)) get_lines = Inr 4"
    by code_simp
qed

text \<open>
  C4, amended: after \<open>buildIndex\<close> on a newly opened engine, whatever the file and the
  option \<open>max\<close>: for a file without any line \<open>lines\<close> is 0 and the Index Table is empty;
  for every other file \<open>lines\<close> is the number of entries of the Index Table plus one,
  because \<open>lines\<close> counts the header line, which has no entry. Every entry has a length
  above zero, and the byte offsets of successive entries are strictly increasing. With the
  default \<open>max\<close>, \<open>lines\<close> is the number of lines of the file and there is one entry for
  each line after the first.
\<close>

theorem index_table_after_indexing:
  "(\<exists>s. open_and_index file fname mx = Inr s
        \<and> (if readline_lines file = [] then lines s = 0 \<and> pool_length s = 0
            else lines s = pool_length s + 1)
        \<and> sorted_wrt (<) (map fst (index_pool s))
        \<and> list_all (\<lambda>e. 0 < snd e) (index_pool s))
   \<and> (\<exists>s. open_and_index file fname (- 1) = Inr s
        \<and> get_lines s = Inr (length (readline_lines file))
        \<and> pool_length s = length (tl (readline_lines file)))"
proof -
  let ?s0 = "(init_engine fname)\<lparr>input_stream := Some fname,
                iterator_stream := Some (readline_lines file),
                reading_handle := Some fname, is_open := True,
                lines := 0, size_bytes := 0\<rparr>"
  have p0: "pool_ok ?s0" by (simp add: pool_ok_def init_engine_def)
  have d0: "line_divisor ?s0 \<noteq> []" by (simp add: init_engine_def)
  have l0: "lines ?s0 = 0" by simp
  have first: "\<exists>s. open_and_index file fname mx = Inr s
        \<and> (if readline_lines file = [] then lines s = 0 \<and> pool_length s = 0
            else lines s = pool_length s + 1)
        \<and> sorted_wrt (<) (map fst (index_pool s))
        \<and> list_all (\<lambda>e. 0 < snd e) (index_pool s)"
  proof -
    obtain s1 ml where sc: "index_scan mx (readline_lines file) (?s0, 0) = (s1, ml)"
      by (cases "index_scan mx (readline_lines file) (?s0, 0)")
    from p0 d0 have ok: "pool_ok s1" using index_scan_pool_ok[OF sc] by blast
    then have len: "length (index_pool s1) = lines s1 - 1" by (simp add: pool_ok_def)
    have cnt: "if readline_lines file = [] then lines s1 = 0 \<and> length (index_pool s1) = 0
               else lines s1 = length (index_pool s1) + 1"
    proof (cases "readline_lines file = []")
      case True
      with index_scan_lines_fresh[OF sc l0] len show ?thesis by simp
    next
      case False
      with index_scan_lines_fresh[OF sc l0] have "0 < lines s1"
        by (auto split: if_splits)
      with len False show ?thesis by simp
    qed
    from open_and_index_result[OF sc] obtain s where
      s: "open_and_index file fname mx = Inr s" "index_pool s = index_pool s1"
         "lines s = lines s1"
      by blast
    from cnt s have "if readline_lines file = [] then lines s = 0 \<and> pool_length s = 0
                     else lines s = pool_length s + 1"
      by (simp add: pool_length_def)
    moreover from ok s have "sorted_wrt (<) (map fst (index_pool s))"
      "list_all (\<lambda>e. 0 < snd e) (index_pool s)"
      by (simp_all add: pool_ok_def)
    ultimately show ?thesis using s(1) by blast
  qed
  have second: "\<exists>s. open_and_index file fname (- 1) = Inr s
        \<and> get_lines s = Inr (length (readline_lines file))
        \<and> pool_length s = length (tl (readline_lines file))"
  proof -
    obtain s1 ml where sc: "index_scan (- 1) (readline_lines file) (?s0, 0) = (s1, ml)"
      by (cases "index_scan (- 1) (readline_lines file) (?s0, 0)")
    from p0 d0 have "pool_ok s1" using index_scan_pool_ok[OF sc] by blast
    moreover from index_scan_lines_fresh[OF sc l0]
    have "lines s1 = length (readline_lines file)" by simp
    ultimately show ?thesis using open_and_index_result[OF sc]
      by (auto simp: pool_ok_def pool_length_def get_lines_def)
  qed
  from first second show ?thesis by (rule conjI)
qed

theorem index_table_after_indexing_witness:
  "readline_lines [] = []
   \<and> and_then (open_and_index [] ''data.csv'' (- 1)) get_lines = Inr 0
   \<and> and_read (open_and_index [] ''data.csv'' (- 1)) pool_length = Inr 0
   \<and> and_then (open_and_index example_file ''data.csv'' (- 1)) get_lines = Inr 4
   \<and> and_read (open_and_index example_file ''data.csv'' (- 1)) pool_length = Inr 3"
proof -
  have e: "readline_lines [] = []" by (simp add: readline_lines_def)
  from index_table_after_indexing[of "[]" "''data.csv''" "- 1"] e
  have "and_then (open_and_index [] ''data.csv'' (- 1)) get_lines = Inr 0
        \<and> and_read (open_and_index [] ''data.csv'' (- 1)) pool_length = Inr 0"
    by (auto simp: and_then_def and_read_def)
  moreover from index_table_after_indexing[of example_file "''data.csv''" "- 1"]
  have "and_then (open_and_index example_file ''data.csv'' (- 1)) get_lines = Inr 4
        \<and> and_read (open_and_index example_file ''data.csv'' (- 1)) pool_length = Inr 3"
    by (auto simp: and_then_def and_read_def example_lines)
  ultimately show ?thesis using e by simp
qed

text \<open>
  C5, as stated: for every \<open>k\<close> from 0 below the number of data rows, \<open>buildIndex({max: k})\<close>
  gives \<open>lines == k\<close> and \<open>getLine(k+1)\<close> then fails with \<open>RangeError\<close>. On the example
  file, which has three data rows, \<open>max: 0\<close> gives \<open>lines == 1\<close>, and after \<open>max: 1\<close> the
  Index Table is empty and \<open>getLine(2)\<close> fails with \<open>StateError\<close>.
\<close>

theorem max_zero_and_one:
  "and_then (open_and_index example_file ''data.csv'' 0) get_lines = Inr 1
   \<and> and_then (open_and_index example_file ''data.csv'' 1)
        (getLine_result example_file (JNum 2)) = Inl StateError"
proof (intro conjI)
  show "and_then (open_and_index example_file ''data.csv'' 0) get_lines = Inr 1"
    by code_simp
  show "and_then (open_and_index example_file ''data.csv'' 1)
          (getLine_result example_file (JNum 2)) = Inl StateError"
    by code_simp
qed

text \<open>
  C5, amended: for every \<open>k\<close> from 1 up to the number of lines of the file, the header
  line included, \<open>buildIndex({max: k})\<close> on a newly opened engine results in \<open>lines == k\<close>,
  the header line being counted, in \<open>k - 1\<close> Index Table entries, and in \<open>size\<close> the sum
  over the first \<open>k\<close> lines of the length of the line plus one for the divisor: \<open>lines\<close> and
  \<open>size\<close> reflect the lines scanned before the cap only. A subsequent \<open>getLine(k+1)\<close> fails
  with \<open>RangeError\<close> when \<open>k\<close> is at least 2; for \<open>k = 1\<close> the Index Table is empty and it
  fails with \<open>StateError\<close>.
\<close>

theorem buildIndex_max:
  assumes "1 \<le> k" and "k \<le> int (length (readline_lines file))"
  shows "\<exists>s. open_and_index file fname k = Inr s
     \<and> get_lines s = Inr (nat k)
     \<and> pool_length s = nat k - 1
     \<and> get_size s = Inr (sum_list (map (\<lambda>l. length l + 1) (take (nat k) (readline_lines file))))
     \<and> getLine_result file (JNum (of_int k + 1)) s
         = (if k = 1 then Inl StateError else Inl RangeError)"
proof -
  let ?s0 = "(init_engine fname)\<lparr>input_stream := Some fname,
                iterator_stream := Some (readline_lines file),
                reading_handle := Some fname, is_open := True,
                lines := 0, size_bytes := 0\<rparr>"
  obtain s1 ml where sc: "index_scan k (readline_lines file) (?s0, 0) = (s1, ml)"
    by (cases "index_scan k (readline_lines file) (?s0, 0)")
  from assms have ne: "readline_lines file \<noteq> []" by auto
  have l0: "lines ?s0 = 0" by simp
  from index_scan_lines_fresh[OF sc l0] ne assms have l1: "lines s1 = nat k" by auto
  have "pool_ok ?s0" by (simp add: pool_ok_def init_engine_def)
  moreover have "line_divisor ?s0 \<noteq> []" by (simp add: init_engine_def)
  ultimately have "pool_ok s1" using index_scan_pool_ok[OF sc] by blast
  with l1 have p1: "length (index_pool s1) = nat k - 1" by (simp add: pool_ok_def)
  from index_scan_size[OF sc] l1
  have z1: "size_bytes s1 = sum_list (map (\<lambda>l. length l + 1) (take (nat k) (readline_lines file)))"
    by (simp add: init_engine_def)
  from open_and_index_result[OF sc] obtain s where
    s: "open_and_index file fname k = Inr s" "index_pool s = index_pool s1" "lines s = lines s1"
       "size_bytes s = size_bytes s1" "is_indexed s" "opened s"
    by blast
  from s l1 have "get_lines s = Inr (nat k)" by (simp add: get_lines_def)
  moreover from s p1 have "pool_length s = nat k - 1" by (simp add: pool_length_def)
  moreover from s z1 have "get_size s
      = Inr (sum_list (map (\<lambda>l. length l + 1) (take (nat k) (readline_lines file))))"
    by (simp add: get_size_def)
  moreover have "getLine_result file (JNum (of_int k + 1)) s
         = (if k = 1 then Inl StateError else Inl RangeError)"
  proof (cases "k = 1")
    case True
    with s p1 show ?thesis by (simp add: getLine_result_def getLine_def opened_def)
  next
    case False
    with assms(1) p1 s have "index_pool s \<noteq> []" by auto
    moreover from assms(1) l1 s have "rat_of_int k + 1 > of_nat (lines s)" by simp
    ultimately show ?thesis using False s(5,6) assms(1)
      by (simp add: getLine_result_def getLine_def opened_def)
  qed
  ultimately show ?thesis using s(1) by blast
qed

theorem buildIndex_max_witness:
  "(1::int) \<le> 2 \<and> (2::int) \<le> int (length (readline_lines example_file))
   \<and> and_then (open_and_index example_file ''data.csv'' 2) get_lines = Inr 2
   \<and> and_read (open_and_index example_file ''data.csv'' 2) pool_length = Inr 1
   \<and> and_then (open_and_index example_file ''data.csv'' 2) get_size = Inr 8
   \<and> and_then (open_and_index example_file ''data.csv'' 2)
        (getLine_result example_file (JNum 3)) = Inl RangeError"
proof -
  have h: "(2::int) \<le> int (length (readline_lines example_file))"
    by (simp add: example_lines)
  have t: "take (nat 2) (readline_lines example_file) = [''a,b'', ''1,2'']"
    by (simp add: example_lines)
  from buildIndex_max[of 2 example_file "''data.csv''"] h t show ?thesis
    by (auto simp: and_then_def and_read_def)
qed


section \<open>Keys of \<open>fields\<close> and the unnamed bucket\<close>

lemma map_of_upd: "map_of (upd k v ps) = (map_of ps)(k \<mapsto> v)"
  by (induction ps) auto

lemma assign_field_other:
  "k \<noteq> col \<Longrightarrow> map_of (own (assign_field col c f)) k = map_of (own f) k"
  by (auto simp: assign_field_def set_prop_def map_of_upd
           split: option.splits fval.splits cell.splits)

lemma assign_field_sets:
  "col \<noteq> ''__proto__'' \<Longrightarrow> has_key (assign_field col c f) col"
  by (auto simp: has_key_def assign_field_def set_prop_def map_of_upd
           split: option.splits fval.splits cell.splits)

lemma assign_field_keeps:
  "has_key f k \<Longrightarrow> has_key (assign_field col c f) k"
  by (auto simp: has_key_def assign_field_def set_prop_def map_of_upd
           split: option.splits fval.splits cell.splits)

lemma assign_field_bucket:
  "bucket f = Some (Seq xs) \<Longrightarrow>
     \<exists>ys. bucket (assign_field col c f) = Some (Seq (xs @ ys))
          \<and> (col = ''_unnamed'' \<or> ys = [])"
  by (auto simp: bucket_def assign_field_def set_prop_def map_of_upd
           split: option.splits fval.splits cell.splits)

lemma push_unnamed_bucket:
  "bucket f = Some (Seq xs) \<Longrightarrow>
     bucket (push_unnamed c f) = Some (Seq (xs @ [c]))"
  by (simp add: bucket_def push_unnamed_def map_of_upd)

lemma push_unnamed_keeps:
  "has_key f k \<Longrightarrow> has_key (push_unnamed c f) k"
  by (auto simp: has_key_def push_unnamed_def map_of_upd split: option.splits fval.splits)

lemma named_loop_Suc:
  "foldl (named_step hs cs) f0 [0..<Suc n]
   = assign_field (hs ! n) (cell_at cs n) (foldl (named_step hs cs) f0 [0..<n])"
  by (simp add: named_step_def)

lemma excess_loop_Suc:
  "foldl (excess_step hs cs) f0 [0..<Suc n]
   = (if n < length hs \<and> hs ! n \<noteq> []
      then assign_field (hs ! n) (cell_at cs n) (foldl (excess_step hs cs) f0 [0..<n])
      else push_unnamed (cell_at cs n) (foldl (excess_step hs cs) f0 [0..<n]))"
  by (simp add: excess_step_def col_at_def)

lemma named_loop_keys:
  "n \<le> length hs \<Longrightarrow> j < n \<Longrightarrow> hs ! j \<noteq> ''__proto__'' \<Longrightarrow>
     has_key (foldl (named_step hs cs) f0 [0..<n]) (hs ! j)"
proof (induction n)
  case 0
  then show ?case by simp
next
  case (Suc n)
  let ?f = "foldl (named_step hs cs) f0 [0..<n]"
  show ?case
  proof (cases "j = n")
    case True
    with Suc.prems show ?thesis
      unfolding named_loop_Suc by (simp add: assign_field_sets)
  next
    case False
    with Suc.prems have "j < n" "n \<le> length hs" by simp_all
    with Suc.IH Suc.prems(3) have "has_key ?f (hs ! j)" by simp
    then show ?thesis
      unfolding named_loop_Suc by (rule assign_field_keeps)
  qed
qed

lemma named_loop_bucket:
  "bucket f0 = Some (Seq xs) \<Longrightarrow> n \<le> length hs \<Longrightarrow>
     \<exists>ys. bucket (foldl (named_step hs cs) f0 [0..<n]) = Some (Seq (xs @ ys))
          \<and> (''_unnamed'' \<in> set hs \<or> ys = [])"
proof (induction n)
  case 0
  then show ?case by simp
next
  case (Suc n)
  let ?f = "foldl (named_step hs cs) f0 [0..<n]"
  from Suc obtain ys where ys: "bucket ?f = Some (Seq (xs @ ys))"
    "''_unnamed'' \<in> set hs \<or> ys = []" by auto
  from assign_field_bucket[OF ys(1), of "hs ! n" "cell_at cs n"] obtain zs where
    zs: "bucket (assign_field (hs ! n) (cell_at cs n) ?f)
           = Some (Seq ((xs @ ys) @ zs))" "hs ! n = ''_unnamed'' \<or> zs = []"
    by blast
  from Suc.prems(2) have "hs ! n \<in> set hs" by simp
  with zs(2) ys(2) have "''_unnamed'' \<in> set hs \<or> ys @ zs = []" by auto
  with zs(1) show ?case
    unfolding named_loop_Suc by (intro exI[of _ "ys @ zs"]) simp
qed

lemma excess_loop_keys:
  "j < n \<Longrightarrow> j < length hs \<Longrightarrow> hs ! j \<noteq> [] \<Longrightarrow> hs ! j \<noteq> ''__proto__'' \<Longrightarrow>
     has_key (foldl (excess_step hs cs) f0 [0..<n]) (hs ! j)"
proof (induction n)
  case 0
  then show ?case by simp
next
  case (Suc n)
  let ?f = "foldl (excess_step hs cs) f0 [0..<n]"
  show ?case
  proof (cases "j = n")
    case True
    with Suc.prems show ?thesis
      unfolding excess_loop_Suc by (simp add: assign_field_sets)
  next
    case False
    with Suc.prems have "j < n" by simp
    with Suc.IH Suc.prems have "has_key ?f (hs ! j)" by simp
    then show ?thesis
      unfolding excess_loop_Suc by (auto intro: assign_field_keeps push_unnamed_keeps)
  qed
qed

lemma unnamed_is_array:
  "bucket f0 = Some (Seq xs) \<Longrightarrow>
     \<exists>ys. bucket (foldl (excess_step hs cs) f0 [0..<n]) = Some (Seq (xs @ ys))
          \<and> (n \<le> length hs \<or> ys \<noteq> [])"
proof (induction n)
  case 0
  then show ?case by simp
next
  case (Suc n)
  let ?f = "foldl (excess_step hs cs) f0 [0..<n]"
  from Suc obtain ys where ys: "bucket ?f = Some (Seq (xs @ ys))"
    "n \<le> length hs \<or> ys \<noteq> []" by auto
  show ?case
  proof (cases "n < length hs \<and> hs ! n \<noteq> []")
    case True
    from assign_field_bucket[OF ys(1), of "hs ! n" "cell_at cs n"] obtain zs where
      zs: "bucket (assign_field (hs ! n) (cell_at cs n) ?f)
             = Some (Seq ((xs @ ys) @ zs))"
      by blast
    with True ys(2) show ?thesis
      unfolding excess_loop_Suc by (intro exI[of _ "ys @ zs"]) auto
  next
    case False
    with push_unnamed_bucket[OF ys(1), of "cell_at cs n"] show ?thesis
      unfolding excess_loop_Suc by (intro exI[of _ "ys @ [cell_at cs n]"]) auto
  qed
qed

text \<open>
  C8, as stated: \<open>fields\<close> has every header name as a key, and the unnamed bucket is
  present only when the row has excess cells. The bucket is created with the record and is
  there, empty, for the row \<open>1,2\<close> under the header \<open>a,b\<close>, which has no excess cell; and
  under the header \<open>a,,b\<close> the row \<open>1,2,3,4\<close> has no key for the empty name, whose cell
  goes to the bucket.
\<close>

theorem bucket_without_excess_and_missing_key:
  "bucket (fields_of (decode [''a'', ''b''] ''1,2'' 1)) = Some (Seq [])
   \<and> \<not> hasExcessCells (decode [''a'', ''b''] ''1,2'' 1)
   \<and> \<not> has_key (fields_of (decode [''a'', '''', ''b''] ''1,2,3,4'' 1)) ''''"
proof (intro conjI)
  show "bucket (fields_of (decode [''a'', ''b''] ''1,2'' 1)) = Some (Seq [])"
    by code_simp
  show "\<not> hasExcessCells (decode [''a'', ''b''] ''1,2'' 1)"
    by code_simp
  show "\<not> has_key (fields_of (decode [''a'', '''', ''b''] ''1,2,3,4'' 1)) ''''"
    by code_simp
qed

text \<open>
  C8, amended: for every line and every header, \<open>fields\<close> has as a key every header name
  other than \<open>__proto__\<close>, the empty name excepted when the row has excess cells; the
  unnamed bucket is always present and is a sequence, it is not empty when the row has
  excess cells, and it is empty when the row has none and no header column is itself named
  \<open>_unnamed\<close>.
\<close>

theorem fields_keys_and_bucket:
  "(\<forall>h \<in> set hs. h \<noteq> ''__proto__'' \<and> (h \<noteq> [] \<or> \<not> hasExcessCells (decode hs l i))
        \<longrightarrow> has_key (fields_of (decode hs l i)) h)
   \<and> (\<exists>xs. bucket (fields_of (decode hs l i)) = Some (Seq xs)
          \<and> (hasExcessCells (decode hs l i) \<longrightarrow> xs \<noteq> [])
          \<and> (''_unnamed'' \<notin> set hs \<and> \<not> hasExcessCells (decode hs l i) \<longrightarrow> xs = []))"
proof (cases "length (splitCSVLine l) > length hs")
  case True
  let ?cs = "splitCSVLine l"
  let ?init = "\<lparr> own = [(''_unnamed'', Seq [])], proto = True \<rparr>"
  let ?f = "foldl (excess_step hs ?cs) ?init [0..<length ?cs]"
  from True have f: "fields_of (decode hs l i) = ?f" and e: "hasExcessCells (decode hs l i)"
    by (simp_all add: decode_def new_CSVObjectLine_def Let_def)
  have keys: "has_key ?f h" if "h \<in> set hs" "h \<noteq> ''__proto__''" "h \<noteq> []" for h
  proof -
    from that(1) obtain j where j: "j < length hs" "hs ! j = h" by (auto simp: in_set_conv_nth)
    with True that excess_loop_keys[of j "length ?cs" hs ?cs ?init] show ?thesis by simp
  qed
  have "bucket ?init = Some (Seq [])" by (simp add: bucket_def)
  from unnamed_is_array[OF this, of hs ?cs "length ?cs"] True
  obtain ys where "bucket ?f = Some (Seq ys)" "ys \<noteq> []" by auto
  with keys f e show ?thesis by auto
next
  case False
  let ?cs = "splitCSVLine l"
  let ?init = "\<lparr> own = [(''_unnamed'', Seq [])], proto = True \<rparr>"
  let ?f = "foldl (named_step hs ?cs) ?init [0..<length hs]"
  from False have f: "fields_of (decode hs l i) = ?f" and e: "\<not> hasExcessCells (decode hs l i)"
    by (simp_all add: decode_def new_CSVObjectLine_def Let_def)
  have keys: "has_key ?f h" if "h \<in> set hs" "h \<noteq> ''__proto__''" for h
  proof -
    from that(1) obtain j where j: "j < length hs" "hs ! j = h" by (auto simp: in_set_conv_nth)
    with that named_loop_keys[of "length hs" hs j ?cs ?init] show ?thesis by simp
  qed
  have "bucket ?init = Some (Seq [])" by (simp add: bucket_def)
  from named_loop_bucket[OF this, of "length hs" hs ?cs]
  obtain ys where "bucket ?f = Some (Seq ys)"
    "''_unnamed'' \<in> set hs \<or> ys = []" by auto
  with keys f e show ?thesis by auto
qed

theorem fields_keys_and_bucket_witness:
  "''a'' \<in> set [''a'', ''b''] \<and> ''a'' \<noteq> ''__proto__'' \<and> ''a'' \<noteq> []
   \<and> has_key (fields_of (decode [''a'', ''b''] ''3,4,5'' 2)) ''a''
   \<and> hasExcessCells (decode [''a'', ''b''] ''3,4,5'' 2)
   \<and> bucket (fields_of (decode [''a'', ''b''] ''3,4,5'' 2))
       = Some (Seq [Str ''5''])
   \<and> ''_unnamed'' \<notin> set [''a'', ''b''] \<and> \<not> hasExcessCells (decode [''a'', ''b''] ''6'' 3)
   \<and> bucket (fields_of (decode [''a'', ''b''] ''6'' 3)) = Some (Seq [])
   \<and> has_key (fields_of (decode [''a'', ''b''] ''6'' 3)) ''b''"
proof -
  have e: "hasExcessCells (decode [''a'', ''b''] ''3,4,5'' 2)" by code_simp
  have n: "\<not> hasExcessCells (decode [''a'', ''b''] ''6'' 3)" by code_simp
  have b: "bucket (fields_of (decode [''a'', ''b''] ''3,4,5'' 2))
           = Some (Seq [Str ''5''])" by code_simp
  from fields_keys_and_bucket[of "[''a'', ''b'']" "''3,4,5''" 2]
  have k1: "has_key (fields_of (decode [''a'', ''b''] ''3,4,5'' 2)) ''a''"
    by simp
  from fields_keys_and_bucket[of "[''a'', ''b'']" "''6''" 3] n
  have k2: "bucket (fields_of (decode [''a'', ''b''] ''6'' 3)) = Some (Seq [])"
    "has_key (fields_of (decode [''a'', ''b''] ''6'' 3)) ''b''"
    by auto
  from e n b k1 k2 show ?thesis by simp
qed

section \<open>Rewinding\<close>

lemma open_e_opened: "open_e file s = Inr s' \<Longrightarrow> opened s'"
  by (auto simp: open_e_def opened_def Let_def split: if_splits)

lemma rewind_fields:
  assumes "opened s"
  shows "\<exists>s'. rewind file s = Inr s' \<and> opened s'
     \<and> filename s' = filename s \<and> is_indexed s' = is_indexed s \<and> header s' = header s
     \<and> lines s' = lines s \<and> columns s' = columns s \<and> size_bytes s' = size_bytes s
     \<and> index_pool s' = index_pool s \<and> reading_handle s' = reading_handle s
     \<and> reading_buffer s' = reading_buffer s
     \<and> iterator_stream s' = Some (readline_lines file)"
  using assms
  by (auto simp: rewind_def close_e_def open_e_def opened_def Let_def)

lemma buildLineObject_HNull:
  "buildLineObject (Some s) t n HNull
   = (case header s of None \<Rightarrow> Inl TypeError | Some hs \<Rightarrow> Inr (decode hs t n))"
  by (simp add: buildLineObject_def)

lemma readAtIndex_state:
  "readAtIndex file s off len = (res, s1) \<Longrightarrow>
     is_open s1 = is_open s \<and> is_indexed s1 = is_indexed s \<and> index_pool s1 = index_pool s
     \<and> lines s1 = lines s \<and> header s1 = header s \<and> input_stream s1 = input_stream s
     \<and> iterator_stream s1 = iterator_stream s \<and> reading_handle s1 = reading_handle s"
  by (auto simp: readAtIndex_def Let_def split: if_splits)

lemma readAtIndex_cong:
  "reading_buffer s' = reading_buffer s \<Longrightarrow>
     fst (readAtIndex file s' off len) = fst (readAtIndex file s off len)"
  by (simp add: readAtIndex_def Let_def)

lemma readAtIndex_again:
  "readAtIndex file s off len = (res, s1) \<Longrightarrow> fst (readAtIndex file s1 off len) = res"
  by (auto simp: readAtIndex_def Let_def split: if_splits option.splits)

lemma getLine_state:
  "getLine file s a = (res, s1) \<Longrightarrow>
     is_open s1 = is_open s \<and> is_indexed s1 = is_indexed s \<and> index_pool s1 = index_pool s
     \<and> lines s1 = lines s \<and> header s1 = header s \<and> input_stream s1 = input_stream s
     \<and> iterator_stream s1 = iterator_stream s \<and> reading_handle s1 = reading_handle s"
  by (auto simp: getLine_def split: if_splits jsarg.splits option.splits prod.splits sum.splits
           dest!: readAtIndex_state)

lemma getLine_result_eq:
  assumes "is_open s' = is_open s" "is_indexed s' = is_indexed s"
    "index_pool s' = index_pool s" "lines s' = lines s" "header s' = header s"
    and rd: "\<And>r off len. a = JNum r \<Longrightarrow> pool_at (index_pool s) r = Some (off, len) \<Longrightarrow>
               fst (readAtIndex file s' off len) = fst (readAtIndex file s off len)"
  shows "getLine_result file a s' = getLine_result file a s"
proof -
  have tail: "fst (case readAtIndex file s' off len of
                    (Inl e, s1) \<Rightarrow> (Inl e, s1)
                  | (Inr t, s1) \<Rightarrow> (buildLineObject (Some s1) t n HNull, s1))
            = fst (case readAtIndex file s off len of
                    (Inl e, s1) \<Rightarrow> (Inl e, s1)
                  | (Inr t, s1) \<Rightarrow> (buildLineObject (Some s1) t n HNull, s1))"
    if "a = JNum r" "pool_at (index_pool s) r = Some (off, len)" for r off len n
  proof -
    obtain r1 t1 where a1: "readAtIndex file s' off len = (r1, t1)"
      by (cases "readAtIndex file s' off len")
    obtain r2 t2 where a2: "readAtIndex file s off len = (r2, t2)"
      by (cases "readAtIndex file s off len")
    from rd[OF that] a1 a2 have "r1 = r2" by simp
    moreover from readAtIndex_state[OF a1] readAtIndex_state[OF a2] assms(5)
    have "header t1 = header t2" by simp
    ultimately show ?thesis using a1 a2
      by (cases r2) (simp_all add: buildLineObject_HNull)
  qed
  show ?thesis
  proof (cases a)
    case JOther
    with assms(1-4) show ?thesis by (simp add: getLine_result_def getLine_def)
  next
    case (JNum r)
    show ?thesis
    proof (cases "pool_at (index_pool s) r")
      case None
      with JNum assms(1-4) show ?thesis by (simp add: getLine_result_def getLine_def)
    next
      case (Some e)
      obtain off len where e: "e = (off, len)" by (cases e)
      from tail[OF JNum, of off len] Some e JNum assms(1-4) show ?thesis
        by (simp add: getLine_result_def getLine_def)
    qed
  qed
qed

lemma getLine_snd:
  "snd (getLine file s a) = s
   \<or> (\<exists>r off len. a = JNum r \<and> pool_at (index_pool s) r = Some (off, len)
         \<and> snd (getLine file s a) = snd (readAtIndex file s off len))"
  by (auto simp: getLine_def split: jsarg.splits option.splits prod.splits sum.splits)

lemma getLine_again:
  "getLine_result file a (snd (getLine file s a)) = getLine_result file a s"
proof -
  obtain res s1 where g: "getLine file s a = (res, s1)" by (cases "getLine file s a")
  have "fst (readAtIndex file s1 off len) = fst (readAtIndex file s off len)"
    if "a = JNum r" "pool_at (index_pool s) r = Some (off, len)" for r off len
  proof -
    from getLine_snd[of "file" s a] g that
    have "s1 = s \<or> s1 = snd (readAtIndex file s off len)" by auto
    then show ?thesis
    proof
      assume "s1 = s" then show ?thesis by simp
    next
      assume s1: "s1 = snd (readAtIndex file s off len)"
      obtain res' where "readAtIndex file s off len = (res', s1)"
        using s1 by (cases "readAtIndex file s off len") simp
      from readAtIndex_again[OF this] this show ?thesis by simp
    qed
  qed
  with getLine_state[OF g] have "getLine_result file a s1 = getLine_result file a s"
    by (intro getLine_result_eq) simp_all
  with g show ?thesis by simp
qed

text \<open>
  C10: on an open engine \<open>rewind()\<close> succeeds and leaves \<open>filename\<close>, \<open>isIndexed\<close>, the
  header, \<open>lines\<close>, \<open>columns\<close>, \<open>size\<close>, every entry of the Index Table and the
  positioned-read handle as they were, and the engine open; so \<open>getLine\<close> gives for every
  argument the same record or error after the rewind as before it, both when the two calls
  start from the same engine and when the call before the rewind has already run and
  written to the shared buffer.
\<close>

theorem rewind_frame:
  assumes "opened s"
  shows "\<exists>s'. rewind file s = Inr s' \<and> opened s'
     \<and> filename s' = filename s \<and> is_indexed s' = is_indexed s \<and> header s' = header s
     \<and> lines s' = lines s \<and> columns s' = columns s \<and> size_bytes s' = size_bytes s
     \<and> index_pool s' = index_pool s \<and> reading_handle s' = reading_handle s
     \<and> getLine_result file a s' = getLine_result file a s
     \<and> and_then (rewind file (snd (getLine file s a))) (getLine_result file a)
         = getLine_result file a s"
proof -
  from rewind_fields[OF assms, of "file"] obtain s' where
    s': "rewind file s = Inr s'" "opened s'" "filename s' = filename s"
        "is_indexed s' = is_indexed s" "header s' = header s" "lines s' = lines s"
        "columns s' = columns s" "size_bytes s' = size_bytes s"
        "index_pool s' = index_pool s" "reading_handle s' = reading_handle s"
        "reading_buffer s' = reading_buffer s"
    by blast
  from s'(2) assms have o: "is_open s' = is_open s" by (simp add: opened_def)
  have same: "getLine_result file a s' = getLine_result file a s"
    using o s' readAtIndex_cong[OF s'(11)] by (intro getLine_result_eq) simp_all
  obtain res s1 where g: "getLine file s a = (res, s1)" by (cases "getLine file s a")
  from getLine_state[OF g] assms have o1: "opened s1" by (simp add: opened_def)
  from rewind_fields[OF o1, of "file"] obtain s2 where
    s2: "rewind file s1 = Inr s2" "opened s2" "is_indexed s2 = is_indexed s1"
        "header s2 = header s1" "lines s2 = lines s1" "index_pool s2 = index_pool s1"
        "reading_buffer s2 = reading_buffer s1"
    by blast
  from s2(2) o1 have o2: "is_open s2 = is_open s1" by (simp add: opened_def)
  have "getLine_result file a s2 = getLine_result file a s1"
    using o2 s2 readAtIndex_cong[OF s2(7)] by (intro getLine_result_eq) simp_all
  also have "\<dots> = getLine_result file a s"
    using getLine_again[of "file" a s] g by simp
  finally have after: "and_then (rewind file (snd (getLine file s a))) (getLine_result file a)
         = getLine_result file a s"
    using g s2(1) by (simp add: and_then_def)
  from s' same after show ?thesis by blast
qed

theorem rewind_frame_witness:
  "opened (indexed wide_file)
   \<and> getLine_result wide_file (JNum 1) (indexed wide_file) = Inr (decode [''a'', ''b''] ''3,4'' 1)
   \<and> and_then (rewind wide_file (indexed wide_file)) (getLine_result wide_file (JNum 1))
       = Inr (decode [''a'', ''b''] ''3,4'' 1)
   \<and> and_then (rewind wide_file (snd (getLine wide_file (indexed wide_file) (JNum 1))))
        (getLine_result wide_file (JNum 1))
       = Inr (decode [''a'', ''b''] ''3,4'' 1)
   \<and> and_read (rewind wide_file (indexed wide_file)) index_pool
       = Inr (index_pool (indexed wide_file))"
proof -
  have o: "opened (indexed wide_file)" by code_simp
  have g: "getLine_result wide_file (JNum 1) (indexed wide_file)
           = Inr (decode [''a'', ''b''] ''3,4'' 1)"
    by code_simp
  from rewind_frame[OF o, of wide_file "JNum 1"] o g show ?thesis
    by (auto simp: and_then_def and_read_def)
qed


end
